theory Spec2Isabelle
  imports Main
begin

section \<open>Python values that reach \<open>ziplus\<close>\<close>

text \<open>
  The values \<open>superzip.py\<close> distinguishes. \<open>PyTuple\<close> stands for every
  \<open>Sequence\<close> that is not a string (tuple, list, range); \<open>PyIterator\<close> stands
  for an iterable that is not a \<open>Sequence\<close> (what \<open>reversed\<close> or \<open>iter\<close>
  return), given by the elements it still has to produce. \<open>PyStopIteration\<close> is the
  builtin class \<open>StopIteration\<close> itself, \<open>PyPrevious\<close> the module's sentinel object
  \<open>Previous\<close> (line 13), and \<open>PyException cls msg\<close> an instance of the
  \<open>Exception\<close> subclass named \<open>cls\<close>; an instance of a subclass of
  \<open>StopIteration\<close> is given the name of \<open>StopIteration\<close>.
\<close>

datatype pyval =
    PyNone
  | PyInt int
  | PyStr string
  | PyTuple "pyval list"
  | PyIterator "pyval list"
  | PyStopIteration
  | PyPrevious
  | PyException string string

text \<open>\<open>isinstance(x, Iterable)\<close>, \<open>isinstance(x, Sequence)\<close>,
  \<open>isinstance(x, Exception)\<close> and \<open>isinstance(x, StopIteration)\<close>.\<close>

fun isinstance_Iterable :: "pyval \<Rightarrow> bool" where
  "isinstance_Iterable (PyStr s) = True"
| "isinstance_Iterable (PyTuple xs) = True"
| "isinstance_Iterable (PyIterator xs) = True"
| "isinstance_Iterable v = False"

fun isinstance_Sequence :: "pyval \<Rightarrow> bool" where
  "isinstance_Sequence (PyStr s) = True"
| "isinstance_Sequence (PyTuple xs) = True"
| "isinstance_Sequence v = False"

fun isinstance_Exception :: "pyval \<Rightarrow> bool" where
  "isinstance_Exception (PyException cls msg) = True"
| "isinstance_Exception v = False"

fun isinstance_StopIteration :: "pyval \<Rightarrow> bool" where
  "isinstance_StopIteration (PyException cls msg) = (cls = ''StopIteration'')"
| "isinstance_StopIteration v = False"

text \<open>\<open>iter(x)\<close> as the list of the elements the iterator will produce, in order.
  A string iterates over its one-character strings. The last equation is never
  reached from \<open>ziplus\<close>, which wraps what is not iterable in a tuple first.\<close>

fun py_iter :: "pyval \<Rightarrow> pyval list" where
  "py_iter (PyStr s) = map (\<lambda>c. PyStr [c]) s"
| "py_iter (PyTuple xs) = xs"
| "py_iter (PyIterator xs) = xs"
| "py_iter v = []"

text \<open>\<open>type(x).__name__\<close>, used only in the text of an error. The class of an
  iterator object is not modelled: every \<open>PyIterator\<close> is named \<open>iterator\<close>.\<close>

fun type_name :: "pyval \<Rightarrow> string" where
  "type_name PyNone = ''NoneType''"
| "type_name (PyInt n) = ''int''"
| "type_name (PyStr s) = ''str''"
| "type_name (PyTuple xs) = ''tuple''"
| "type_name (PyIterator xs) = ''iterator''"
| "type_name PyStopIteration = ''type''"
| "type_name PyPrevious = ''PreviousType''"
| "type_name (PyException cls msg) = cls"

text \<open>\<open>range(n)\<close> and \<open>reversed(x)\<close>, for the examples of the docstring.\<close>

definition py_range :: "nat \<Rightarrow> pyval" where
  "py_range n = PyTuple (map (\<lambda>k. PyInt (int k)) [0..<n])"

definition py_reversed :: "pyval \<Rightarrow> pyval" where
  "py_reversed x = PyIterator (rev (py_iter x))"

section \<open>The generator \<open>ziplus\<close>\<close>

text \<open>
  The local variables of the generator's frame. \<open>items\<close> holds, for every column,
  the elements its iterator has not produced yet: \<open>items[i].__next__()\<close> takes the
  head, and raises \<open>StopIteration\<close> on the empty list. The list \<open>values\<close> is the field \<open>values'\<close>; \<open>debug\<close> and \<open>i_rows\<close>
  only feed \<open>print\<close> and are left out.
\<close>

record frame =
  defaults :: "pyval list"
  n_items :: nat
  items :: "pyval list list"
  n_stopped :: nat
  stopped :: "bool list"
  values' :: "pyval list"

text \<open>How one pass over the columns ends: the \<open>for\<close> loop runs to its end, the
  generator returns (line 128, 156), or it raises a default (line 130, 158).\<close>

datatype loop_result =
    Completed frame
  | Returned frame
  | Raising pyval frame

text \<open>
  The loop \<open>for i in i_items\<close>, lines 112-131 and again lines 140-160. The two copies
  differ in one place: what a \<open>Previous\<close> column is filled with, \<open>None\<close> before the
  first row and \<open>previous[i]\<close> afterwards. \<open>previous\<close> is \<open>None\<close> for the first
  copy and \<open>Some\<close> of the last yielded row for the second.
\<close>

fun for_columns :: "pyval list option \<Rightarrow> nat list \<Rightarrow> frame \<Rightarrow> loop_result" where
  "for_columns previous [] f = Completed f"
| "for_columns previous (i # i_items) f =
    (if \<not> stopped f ! i \<and> items f ! i \<noteq> [] then
       for_columns previous i_items
         (f\<lparr>values' := values' f @ [hd (items f ! i)],
            items := (items f)[i := tl (items f ! i)]\<rparr>)
     else
       let f' = (if \<not> stopped f ! i
                 then f\<lparr>stopped := (stopped f)[i := True], n_stopped := n_stopped f + 1\<rparr>
                 else f)
       in
         if \<not> stopped f ! i \<and> defaults f ! i = PyStopIteration then Returned f'
         else if isinstance_Exception (defaults f ! i) then Raising (defaults f ! i) f'
         else for_columns previous i_items
           (f'\<lparr>values' := values' f' @
               [if defaults f ! i = PyPrevious
                then (case previous of None \<Rightarrow> PyNone | Some p \<Rightarrow> p ! i)
                else defaults f ! i]\<rparr>))"

text \<open>
  A generator object: created and not started (no line of the body has run), suspended
  at the \<open>yield\<close> of line 136 with its frame, or finished. A finished generator keeps
  nothing; \<open>Closed\<close> records where it left the iterators it was given, which the caller
  may still hold. The arguments are taken to be independent of each other (no iterator
  is passed twice), and the consumer is taken not to change the list it is handed, which
  is the list the next pass reads as \<open>previous\<close>.
\<close>

datatype generator =
    Created "pyval list" pyval
  | Suspended frame
  | Closed "pyval list list"

text \<open>What \<open>__next__\<close> on the generator gives: a row, \<open>StopIteration\<close>, or an
  exception.\<close>

datatype next_result =
    Yield "pyval list"
  | StopIter
  | Raised pyval

text \<open>
  An exception leaving the generator's body. With \<open>generator_stop\<close> (line 5) an
  instance of \<open>StopIteration\<close> raised inside a generator reaches the caller as a
  \<open>RuntimeError\<close>.
\<close>

definition raise_in_generator :: "pyval \<Rightarrow> pyval" where
  "raise_in_generator e =
     (if isinstance_StopIteration e
      then PyException ''RuntimeError'' ''generator raised StopIteration''
      else e)"

text \<open>Calling \<open>ziplus\<close> with the arguments \<open>iterables\<close> and the keyword
  \<open>defaults\<close>: the function has a \<open>yield\<close>, so the call runs none of its body and
  returns a generator object.\<close>

definition ziplus :: "pyval list \<Rightarrow> pyval \<Rightarrow> generator" where
  "ziplus iterables dflts = Created iterables dflts"

text \<open>Line 105-106: the iterator of one argument, one that is not iterable being
  wrapped in a one-element tuple.\<close>

definition item_of :: "pyval \<Rightarrow> pyval list" where
  "item_of i = py_iter (if isinstance_Iterable i then i else PyTuple [i])"

text \<open>After a pass over the columns: the test of the \<open>while\<close> (line 132) and the
  \<open>yield\<close> (line 136), or the end of the generator.\<close>

definition finish_pass :: "loop_result \<Rightarrow> next_result \<times> generator" where
  "finish_pass r =
     (case r of
        Returned f \<Rightarrow> (StopIter, Closed (items f))
      | Raising e f \<Rightarrow> (Raised (raise_in_generator e), Closed (items f))
      | Completed f \<Rightarrow>
          if n_stopped f < n_items f then (Yield (values' f), Suspended f)
          else (StopIter, Closed (items f)))"

text \<open>
  One \<open>__next__\<close> on the generator. From \<open>Created\<close> it runs lines 97-136; from
  \<open>Suspended\<close> it resumes after the \<open>yield\<close>, lines 137-160 and back to 132-136.
\<close>

fun gen_next :: "generator \<Rightarrow> next_result \<times> generator" where
  "gen_next (Created iterables dflts) =
     (let n = length iterables;
          dflts = (if dflts = PyNone then PyTuple (replicate n PyStopIteration) else dflts)
      in
        if \<not> isinstance_Sequence dflts then
          (Raised (PyException ''ValueError''
                     (''defaults expects a Sequence but found '' @ type_name dflts)),
           Closed (map item_of iterables))
        else if length (py_iter dflts) \<noteq> n then
          (Raised (PyException ''ValueError'' ''Bad defaults length''),
           Closed (map item_of iterables))
        else
          finish_pass (for_columns None [0..<n]
            \<lparr>defaults = py_iter dflts, n_items = n, items = map item_of iterables,
             n_stopped = 0, stopped = replicate n False, values' = []\<rparr>))"
| "gen_next (Suspended f) =
     finish_pass (for_columns (Some (values' f)) [0..<n_items f] (f\<lparr>values' := []\<rparr>))"
| "gen_next (Closed its) = (StopIter, Closed its)"

text \<open>
  A consumer that asks for at most \<open>fuel\<close> rows: the rows it got, and how the
  iteration ended, \<open>None\<close> when the consumer stopped asking first.
\<close>

fun consume :: "nat \<Rightarrow> generator \<Rightarrow> pyval list list \<times> next_result option" where
  "consume 0 g = ([], None)"
| "consume (Suc fuel) g =
     (case gen_next g of
        (Yield row, g') \<Rightarrow> (case consume fuel g' of (rows, e) \<Rightarrow> (row # rows, e))
      | (r, g') \<Rightarrow> ([], Some r))"

text \<open>The three arguments of the docstring's examples.\<close>

definition example_iterables :: "pyval list" where
  "example_iterables = [py_range 10, py_reversed (py_range 10), PyStr ''abcdef'']"

text \<open>The ten rows of the docstring's first example (lines 44-53).\<close>

definition ten_rows :: "pyval list list" where
  "ten_rows =
     [[PyInt 0, PyInt 9, PyStr ''a''], [PyInt 1, PyInt 8, PyStr ''b''],
      [PyInt 2, PyInt 7, PyStr ''c''], [PyInt 3, PyInt 6, PyStr ''d''],
      [PyInt 4, PyInt 5, PyStr ''e''], [PyInt 5, PyInt 4, PyStr ''f''],
      [PyInt 6, PyInt 3, PyStr ''f''], [PyInt 7, PyInt 2, PyStr ''f''],
      [PyInt 8, PyInt 1, PyStr ''f''], [PyInt 9, PyInt 0, PyStr ''f'']]"

section \<open>What the generator is expected to yield\<close>

text \<open>
  Notions used to state and prove the properties below; none of them is part of the
  program. \<open>seqs\<close> are the elements of the columns, \<open>d\<close> the defaults, \<open>k\<close> the
  index of a row counted from zero, and \<open>i\<close> a column.
\<close>

text \<open>The value of column \<open>i\<close> in row \<open>k\<close>: the column's own element while it
  has one, then \<open>None\<close> or its last element under \<open>Previous\<close>, and the default
  itself otherwise.\<close>

definition rowval :: "pyval list list \<Rightarrow> pyval list \<Rightarrow> nat \<Rightarrow> nat \<Rightarrow> pyval" where
  "rowval seqs d k i =
     (if k < length (seqs ! i) then seqs ! i ! k
      else if d ! i = PyPrevious then (if seqs ! i = [] then PyNone else last (seqs ! i))
      else d ! i)"

definition expected_row :: "pyval list list \<Rightarrow> pyval list \<Rightarrow> nat \<Rightarrow> pyval list" where
  "expected_row seqs d k = map (rowval seqs d k) [0..<length seqs]"

text \<open>Column \<open>i\<close>, visited for row \<open>k\<close>, ends the iteration: it has run out and
  its default is an exception instance, or it runs out at this very row and its default
  is \<open>StopIteration\<close>.\<close>

definition col_ends :: "pyval list list \<Rightarrow> pyval list \<Rightarrow> nat \<Rightarrow> nat \<Rightarrow> bool" where
  "col_ends seqs d k i =
     (length (seqs ! i) \<le> k \<and>
      ((length (seqs ! i) = k \<and> d ! i = PyStopIteration) \<or> isinstance_Exception (d ! i)))"

text \<open>Lines 118-119 and 146-147, for a column that was not stopped yet.\<close>

definition mark_stopped :: "nat \<Rightarrow> frame \<Rightarrow> frame" where
  "mark_stopped i f =
     (if \<not> stopped f ! i
      then f\<lparr>stopped := (stopped f)[i := True], n_stopped := n_stopped f + 1\<rparr>
      else f)"

text \<open>The frame in the middle of the pass for row \<open>k\<close>, the columns below \<open>m\<close>
  done; and what \<open>previous\<close> holds during that pass.\<close>

definition mid_inv :: "pyval list list \<Rightarrow> pyval list \<Rightarrow> nat \<Rightarrow> nat \<Rightarrow> frame \<Rightarrow> bool" where
  "mid_inv seqs d k m f =
     (defaults f = d \<and> n_items f = length seqs \<and> length d = length seqs \<and>
      length (items f) = length seqs \<and> length (stopped f) = length seqs \<and>
      n_stopped f = length (filter id (stopped f)) \<and>
      values' f = map (rowval seqs d k) [0..<m] \<and>
      (\<forall>i<length seqs.
         items f ! i = drop (if i < m then Suc k else k) (seqs ! i) \<and>
         stopped f ! i = (length (seqs ! i) < (if i < m then Suc k else k))))"

definition prev_ok :: "pyval list list \<Rightarrow> pyval list \<Rightarrow> nat \<Rightarrow> pyval list option \<Rightarrow> bool" where
  "prev_ok seqs d k prev =
     (case prev of None \<Rightarrow> k = 0 | Some p \<Rightarrow> 0 < k \<and> p = expected_row seqs d (k - 1))"

text \<open>Some column still has an element for row \<open>k\<close>.\<close>

definition live :: "pyval list list \<Rightarrow> nat \<Rightarrow> bool" where
  "live seqs k = (\<exists>i<length seqs. k < length (seqs ! i))"

text \<open>Lines 98-104: the defaults after line 99, and the two checks that follow.\<close>

definition the_defaults :: "nat \<Rightarrow> pyval \<Rightarrow> pyval" where
  "the_defaults n dflts =
     (if dflts = PyNone then PyTuple (replicate n PyStopIteration) else dflts)"

definition valid_defaults :: "nat \<Rightarrow> pyval \<Rightarrow> bool" where
  "valid_defaults n dflts =
     (isinstance_Sequence (the_defaults n dflts) \<and> length (py_iter (the_defaults n dflts)) = n)"

text \<open>A generator that has yielded \<open>k\<close> rows.\<close>

definition gen_inv :: "pyval list list \<Rightarrow> pyval list \<Rightarrow> nat \<Rightarrow> generator \<Rightarrow> bool" where
  "gen_inv seqs d k g =
     (case g of
        Created iterables dflts \<Rightarrow>
          k = 0 \<and> seqs = map item_of iterables \<and> valid_defaults (length iterables) dflts \<and>
          d = py_iter (the_defaults (length iterables) dflts)
      | Suspended f \<Rightarrow> 0 < k \<and> mid_inv seqs d (k - 1) (length seqs) f
      | Closed its \<Rightarrow> False)"

text \<open>
  The specification's words for two of its properties: the length of the shortest and of
  the longest column (0 when there is no column), the rows of a zip that stops at the
  shortest column, and the rows in which a column that has run out keeps its last
  element.
\<close>

definition min_len :: "pyval list list \<Rightarrow> nat" where
  "min_len seqs = (if seqs = [] then 0 else Min (set (map length seqs)))"

definition max_len :: "pyval list list \<Rightarrow> nat" where
  "max_len seqs = (if seqs = [] then 0 else Max (set (map length seqs)))"

definition truncating_zip :: "pyval list list \<Rightarrow> pyval list list" where
  "truncating_zip seqs = map (\<lambda>j. map (\<lambda>s. s ! j) seqs) [0..<min_len seqs]"

definition previous_filled :: "pyval list list \<Rightarrow> pyval list list" where
  "previous_filled seqs =
     map (\<lambda>j. map (\<lambda>s. if j < length s then s ! j else last s) seqs) [0..<max_len seqs]"

text \<open>The generator after \<open>m\<close> requests, and where the iterators of the columns
  stand: what each of them has not produced yet.\<close>

fun after :: "nat \<Rightarrow> generator \<Rightarrow> generator" where
  "after 0 g = g"
| "after (Suc m) g = after m (snd (gen_next g))"

fun cursors :: "generator \<Rightarrow> pyval list list" where
  "cursors (Created iterables dflts) = map item_of iterables"
| "cursors (Suspended f) = items f"
| "cursors (Closed its) = its"

text \<open>Three columns of two, one and two elements.\<close>

definition stop_example :: "pyval list" where
  "stop_example = [PyStr ''ab'', PyStr ''c'', PyStr ''de'']"

section \<open>Consumers\<close>

text \<open>Once the iteration has ended, asking for more rows changes nothing.\<close>

lemma consume_more:
  "consume a g = (rows, Some e) \<Longrightarrow> consume (a + b) g = (rows, Some e)"
proof (induction a arbitrary: g rows)
  case 0
  then show ?case by simp
next
  case (Suc a)
  obtain r g' where gn: "gen_next g = (r, g')" by (cases "gen_next g")
  show ?case
  proof (cases r)
    case (Yield row)
    obtain rs e' where c: "consume a g' = (rs, e')" by (cases "consume a g'")
    with Suc.prems gn Yield have "e' = Some e" and "rows = row # rs" by auto
    with c Suc.IH have "consume (a + b) g' = (rs, Some e)" by simp
    with gn Yield \<open>rows = row # rs\<close> show ?thesis by simp
  next
    case StopIter
    with Suc.prems gn show ?thesis by auto
  next
    case (Raised x)
    with Suc.prems gn show ?thesis by auto
  qed
qed

section \<open>One pass over the columns\<close>

lemma count_stopped_update:
  "i < length bs \<Longrightarrow> \<not> bs ! i \<Longrightarrow>
     length (filter id (bs[i := True])) = Suc (length (filter id bs))"
proof (induction bs arbitrary: i)
  case Nil
  then show ?case by simp
next
  case (Cons b bs)
  then show ?case by (cases i) auto
qed

lemma count_stopped_less:
  "(length (filter id bs) < length bs) = (\<exists>i<length bs. \<not> bs ! i)"
proof (induction bs)
  case Nil
  then show ?case by simp
next
  case (Cons b bs)
  have le: "length (filter id bs) \<le> length bs" by simp
  show ?case
  proof (cases b)
    case True
    have "(\<exists>i<length (b # bs). \<not> (b # bs) ! i) = (\<exists>i<length bs. \<not> bs ! i)"
      using True by (simp add: Ex_less_Suc2)
    with Cons True show ?thesis by simp
  next
    case False
    then have "\<exists>i<length (b # bs). \<not> (b # bs) ! i" by (intro exI[of _ 0]) simp
    with False le show ?thesis by (simp add: less_Suc_eq_le)
  qed
qed

lemma prev_fill:
  assumes "prev_ok seqs d k prev" "i < length seqs" "length (seqs ! i) \<le> k"
    "d ! i = PyPrevious"
  shows "(case prev of None \<Rightarrow> PyNone | Some p \<Rightarrow> p ! i) = rowval seqs d k i"
proof (cases prev)
  case None
  with assms show ?thesis by (simp add: prev_ok_def rowval_def)
next
  case (Some p)
  with assms have k: "0 < k" and p: "p = expected_row seqs d (k - 1)"
    by (simp_all add: prev_ok_def)
  from p assms(2) have "p ! i = rowval seqs d (k - 1) i" by (simp add: expected_row_def)
  also have "\<dots> = rowval seqs d k i"
  proof (cases "k = length (seqs ! i)")
    case True
    with k assms(4) show ?thesis by (auto simp: rowval_def last_conv_nth)
  next
    case False
    with assms(3) have "\<not> k - 1 < length (seqs ! i)" by arith
    with assms(3,4) show ?thesis by (simp add: rowval_def)
  qed
  finally show ?thesis using Some by simp
qed

lemma for_columns_ends:
  assumes "mid_inv seqs d k m f" "m < length seqs" "col_ends seqs d k m"
  shows "for_columns prev (m # cols) f =
     (if d ! m = PyStopIteration then Returned (mark_stopped m f)
      else Raising (d ! m) (mark_stopped m f))"
  using assms
  by (auto simp: mid_inv_def col_ends_def mark_stopped_def Let_def)

lemma for_columns_goes_on:
  assumes "mid_inv seqs d k m f" "m < length seqs" "\<not> col_ends seqs d k m"
    "prev_ok seqs d k prev"
  shows "\<exists>f1. for_columns prev (m # cols) f = for_columns prev cols f1 \<and>
     mid_inv seqs d k (Suc m) f1"
proof (cases "k < length (seqs ! m)")
  case True
  let ?f1 = "f\<lparr>values' := values' f @ [hd (items f ! m)],
            items := (items f)[m := tl (items f ! m)]\<rparr>"
  from assms(1,2) True have a: "for_columns prev (m # cols) f = for_columns prev cols ?f1"
    by (simp add: mid_inv_def)
  from assms(1,2) True have "mid_inv seqs d k (Suc m) ?f1"
    by (auto simp: mid_inv_def rowval_def nth_list_update hd_drop_conv_nth tl_drop drop_Suc less_Suc_eq)
  with a show ?thesis by blast
next
  case False
  let ?v = "if d ! m = PyPrevious
                then (case prev of None \<Rightarrow> PyNone | Some p \<Rightarrow> p ! m)
                else d ! m"
  let ?f1 = "(mark_stopped m f)\<lparr>values' := values' (mark_stopped m f) @ [?v]\<rparr>"
  from False assms(3) have pol: "\<not> isinstance_Exception (d ! m)"
    "length (seqs ! m) = k \<Longrightarrow> d ! m \<noteq> PyStopIteration"
    by (auto simp: col_ends_def)
  from assms(1,2) False pol have a: "for_columns prev (m # cols) f = for_columns prev cols ?f1"
    by (auto simp: mid_inv_def mark_stopped_def Let_def)
  have v: "?v = rowval seqs d k m"
    using prev_fill[OF assms(4,2)] False by (auto simp: rowval_def)
  from assms(1,2) False have "mid_inv seqs d k (Suc m) ?f1"
    unfolding v
    by (auto simp: mid_inv_def mark_stopped_def nth_list_update less_Suc_eq count_stopped_update)
  with a show ?thesis by blast
qed

lemma for_columns_completes:
  assumes "mid_inv seqs d k m f" "m \<le> length seqs" "prev_ok seqs d k prev"
    "\<forall>i. m \<le> i \<and> i < length seqs \<longrightarrow> \<not> col_ends seqs d k i"
  shows "\<exists>f'. for_columns prev [m..<length seqs] f = Completed f' \<and>
     mid_inv seqs d k (length seqs) f'"
  using assms
proof (induction "length seqs - m" arbitrary: m f)
  case 0
  then show ?case by simp
next
  case (Suc x)
  then have m: "m < length seqs" by arith
  with Suc.prems have "\<not> col_ends seqs d k m" by simp
  from for_columns_goes_on[OF Suc.prems(1) m this Suc.prems(3)]
  obtain f1 where f1: "for_columns prev (m # [Suc m..<length seqs]) f =
      for_columns prev [Suc m..<length seqs] f1" "mid_inv seqs d k (Suc m) f1"
    by blast
  from Suc.hyps(2) have "x = length seqs - Suc m" by arith
  from Suc.hyps(1)[OF this f1(2) _ Suc.prems(3)] m Suc.prems(4)
  obtain f' where "for_columns prev [Suc m..<length seqs] f1 = Completed f'"
    "mid_inv seqs d k (length seqs) f'" by auto
  with f1(1) m show ?case by (simp add: upt_conv_Cons)
qed

lemma for_columns_ends_at:
  assumes "mid_inv seqs d k m f" "m \<le> c" "c < length seqs" "prev_ok seqs d k prev"
    "\<forall>i. m \<le> i \<and> i < c \<longrightarrow> \<not> col_ends seqs d k i" "col_ends seqs d k c"
  shows "\<exists>f1. mid_inv seqs d k c f1 \<and> for_columns prev [m..<length seqs] f =
     (if d ! c = PyStopIteration then Returned (mark_stopped c f1)
      else Raising (d ! c) (mark_stopped c f1))"
  using assms
proof (induction "c - m" arbitrary: m f)
  case 0
  then have "m = c" by simp
  with 0 for_columns_ends[of seqs d k c f prev "[Suc c..<length seqs]"]
  show ?case by (auto simp: upt_conv_Cons)
next
  case (Suc x)
  then have m: "m < c" "m < length seqs" by arith+
  with Suc.prems have "\<not> col_ends seqs d k m" by simp
  from for_columns_goes_on[OF Suc.prems(1) m(2) this Suc.prems(4)]
  obtain f1 where f1: "for_columns prev (m # [Suc m..<length seqs]) f =
      for_columns prev [Suc m..<length seqs] f1" "mid_inv seqs d k (Suc m) f1"
    by blast
  from Suc.hyps(2) have "x = c - Suc m" by arith
  from Suc.hyps(1)[OF this f1(2) _ Suc.prems(3,4) _ Suc.prems(6)] m Suc.prems(5)
  obtain f2 where "mid_inv seqs d k c f2" "for_columns prev [Suc m..<length seqs] f1 =
     (if d ! c = PyStopIteration then Returned (mark_stopped c f2)
      else Raising (d ! c) (mark_stopped c f2))" by auto
  with f1(1) m show ?case by (auto simp: upt_conv_Cons)
qed

text \<open>What a request starts from: the frame before the pass for row \<open>k\<close>.\<close>

lemma gen_next_pass:
  assumes "gen_inv seqs d k g"
  shows "\<exists>prev f. gen_next g = finish_pass (for_columns prev [0..<length seqs] f) \<and>
     mid_inv seqs d k 0 f \<and> prev_ok seqs d k prev"
proof (cases g)
  case (Created iterables dflts)
  let ?f = "\<lparr>defaults = d, n_items = length iterables, items = map item_of iterables,
             n_stopped = 0, stopped = replicate (length iterables) False, values' = []\<rparr>"
  from assms Created have a: "gen_next g = finish_pass (for_columns None [0..<length seqs] ?f)"
    by (simp add: gen_inv_def valid_defaults_def the_defaults_def Let_def)
  from assms Created have "mid_inv seqs d k 0 ?f"
    by (auto simp: gen_inv_def valid_defaults_def mid_inv_def)
  moreover from assms Created have "prev_ok seqs d k None"
    by (simp add: gen_inv_def prev_ok_def)
  ultimately show ?thesis using a by blast
next
  case (Suspended f)
  with assms have k: "0 < k" and inv: "mid_inv seqs d (k - 1) (length seqs) f"
    by (simp_all add: gen_inv_def)
  from inv Suspended have a: "gen_next g =
      finish_pass (for_columns (Some (values' f)) [0..<length seqs] (f\<lparr>values' := []\<rparr>))"
    by (simp add: mid_inv_def)
  from inv k have "mid_inv seqs d k 0 (f\<lparr>values' := []\<rparr>)"
    by (simp add: mid_inv_def)
  moreover from inv k have "prev_ok seqs d k (Some (values' f))"
    by (simp add: prev_ok_def expected_row_def mid_inv_def)
  ultimately show ?thesis using a by blast
next
  case (Closed its)
  with assms show ?thesis by (simp add: gen_inv_def)
qed

lemma mid_inv_live:
  assumes "mid_inv seqs d k (length seqs) f"
  shows "(n_stopped f < n_items f) = live seqs k"
proof -
  from assms have "n_stopped f = length (filter id (stopped f))"
    "n_items f = length (stopped f)" by (simp_all add: mid_inv_def)
  then have "(n_stopped f < n_items f) = (\<exists>i<length (stopped f). \<not> stopped f ! i)"
    by (simp only: count_stopped_less)
  also from assms have "\<dots> = live seqs k"
    by (auto simp: mid_inv_def live_def not_less)
  finally show ?thesis .
qed

lemma gen_next_yields:
  assumes "gen_inv seqs d k g" "\<forall>i<length seqs. \<not> col_ends seqs d k i" "live seqs k"
  shows "\<exists>g'. gen_next g = (Yield (expected_row seqs d k), g') \<and> gen_inv seqs d (Suc k) g'"
proof -
  from gen_next_pass[OF assms(1)] obtain prev f where
    p: "gen_next g = finish_pass (for_columns prev [0..<length seqs] f)"
      "mid_inv seqs d k 0 f" "prev_ok seqs d k prev" by blast
  from for_columns_completes[OF p(2) _ p(3)] assms(2) obtain f' where
    f': "for_columns prev [0..<length seqs] f = Completed f'"
      "mid_inv seqs d k (length seqs) f'" by auto
  from f'(2) have "values' f' = expected_row seqs d k"
    by (simp add: mid_inv_def expected_row_def)
  with p(1) f' assms(3) mid_inv_live[OF f'(2)]
  have "gen_next g = (Yield (expected_row seqs d k), Suspended f')"
    by (simp add: finish_pass_def)
  moreover from f'(2) have "gen_inv seqs d (Suc k) (Suspended f')"
    by (simp add: gen_inv_def)
  ultimately show ?thesis by blast
qed

lemma gen_next_exhausted:
  assumes "gen_inv seqs d k g" "\<forall>i<length seqs. \<not> col_ends seqs d k i" "\<not> live seqs k"
  shows "\<exists>its. gen_next g = (StopIter, Closed its)"
proof -
  from gen_next_pass[OF assms(1)] obtain prev f where
    p: "gen_next g = finish_pass (for_columns prev [0..<length seqs] f)"
      "mid_inv seqs d k 0 f" "prev_ok seqs d k prev" by blast
  from for_columns_completes[OF p(2) _ p(3)] assms(2) obtain f' where
    f': "for_columns prev [0..<length seqs] f = Completed f'"
      "mid_inv seqs d k (length seqs) f'" by auto
  with p(1) assms(3) mid_inv_live[OF f'(2)] show ?thesis
    by (simp add: finish_pass_def)
qed

lemma gen_next_ends:
  assumes "gen_inv seqs d k g" "c < length seqs" "col_ends seqs d k c"
    "\<forall>i<c. \<not> col_ends seqs d k i"
  shows "\<exists>its. gen_next g =
       (if d ! c = PyStopIteration then StopIter else Raised (raise_in_generator (d ! c)),
        Closed its) \<and>
     length its = length seqs \<and>
     (\<forall>j<length seqs. its ! j = drop (if j < c then Suc k else k) (seqs ! j))"
proof -
  from gen_next_pass[OF assms(1)] obtain prev f where
    p: "gen_next g = finish_pass (for_columns prev [0..<length seqs] f)"
      "mid_inv seqs d k 0 f" "prev_ok seqs d k prev" by blast
  from for_columns_ends_at[OF p(2) _ assms(2) p(3) _ assms(3)] assms(4) obtain f1 where
    f1: "mid_inv seqs d k c f1" "for_columns prev [0..<length seqs] f =
     (if d ! c = PyStopIteration then Returned (mark_stopped c f1)
      else Raising (d ! c) (mark_stopped c f1))" by auto
  have "items (mark_stopped c f1) = items f1" by (simp add: mark_stopped_def)
  with f1(1) have "length (items (mark_stopped c f1)) = length seqs"
    "\<forall>j<length seqs. items (mark_stopped c f1) ! j =
       drop (if j < c then Suc k else k) (seqs ! j)"
    by (simp_all add: mid_inv_def)
  with p(1) f1(2) show ?thesis by (simp add: finish_pass_def)
qed

lemma first_ending_column:
  assumes "\<exists>i<n::nat. P i"
  shows "\<exists>c<n. P c \<and> (\<forall>i<c. \<not> P i)"
proof -
  from assms have "\<exists>i. i < n \<and> P i" by blast
  then obtain c where "c < n \<and> P c" "\<forall>m<c. \<not> (m < n \<and> P m)"
    unfolding exists_least_iff[of "\<lambda>i. i < n \<and> P i"] by blast
  then show ?thesis by (intro exI[of _ c]) auto
qed

lemma gen_next_Yield:
  assumes "gen_inv seqs d k g" "gen_next g = (Yield row, g')"
  shows "(\<forall>i<length seqs. \<not> col_ends seqs d k i) \<and> live seqs k \<and>
     row = expected_row seqs d k \<and> gen_inv seqs d (Suc k) g'"
proof -
  have no_end: "\<forall>i<length seqs. \<not> col_ends seqs d k i"
  proof (rule ccontr)
    assume "\<not> ?thesis"
    then have "\<exists>i<length seqs. col_ends seqs d k i" by simp
    from first_ending_column[OF this] obtain c where
      "c < length seqs" "col_ends seqs d k c" "\<forall>i<c. \<not> col_ends seqs d k i" by blast
    from gen_next_ends[OF assms(1) this] assms(2) show False by (auto split: if_splits)
  qed
  have lv: "live seqs k"
  proof (rule ccontr)
    assume "\<not> ?thesis"
    from gen_next_exhausted[OF assms(1) no_end this] assms(2) show False by auto
  qed
  from gen_next_yields[OF assms(1) no_end lv] assms(2) no_end lv show ?thesis by auto
qed

lemma consume_sound:
  assumes "gen_inv seqs d k g" "consume fuel g = (rows, e)"
  shows "rows = map (expected_row seqs d) [k..<k + length rows] \<and>
     (\<forall>j. k \<le> j \<and> j < k + length rows \<longrightarrow>
        (\<forall>i<length seqs. \<not> col_ends seqs d j i) \<and> live seqs j)"
  using assms
proof (induction fuel arbitrary: k g rows)
  case 0
  then show ?case by auto
next
  case (Suc fuel)
  obtain r g' where gn: "gen_next g = (r, g')" by (cases "gen_next g")
  show ?case
  proof (cases r)
    case (Yield row)
    obtain rs e' where c: "consume fuel g' = (rs, e')" by (cases "consume fuel g'")
    with Suc.prems(2) gn Yield have rows: "rows = row # rs" and "e' = e" by auto
    with c have c: "consume fuel g' = (rs, e)" by simp
    from gen_next_Yield[OF Suc.prems(1)] gn Yield have
      y: "\<forall>i<length seqs. \<not> col_ends seqs d k i" "live seqs k"
        "row = expected_row seqs d k" "gen_inv seqs d (Suc k) g'" by auto
    from Suc.IH[OF y(4) c] have
      ih: "rs = map (expected_row seqs d) [Suc k..<Suc k + length rs]"
        "\<forall>j. Suc k \<le> j \<and> j < Suc k + length rs \<longrightarrow>
          (\<forall>i<length seqs. \<not> col_ends seqs d j i) \<and> live seqs j" by auto
    have len: "k + length rows = Suc (k + length rs)" using rows by simp
    have "[k..<k + length rows] = k # [Suc k..<Suc k + length rs]"
      unfolding len add_Suc by (rule upt_conv_Cons) simp
    with ih(1) y(3) rows have "rows = map (expected_row seqs d) [k..<k + length rows]"
      by simp
    moreover have "\<forall>j. k \<le> j \<and> j < k + length rows \<longrightarrow>
        (\<forall>i<length seqs. \<not> col_ends seqs d j i) \<and> live seqs j"
    proof (intro allI impI)
      fix j assume j: "k \<le> j \<and> j < k + length rows"
      show "(\<forall>i<length seqs. \<not> col_ends seqs d j i) \<and> live seqs j"
      proof (cases "j = k")
        case True
        with y show ?thesis by simp
      next
        case False
        with j rows have "Suc k \<le> j \<and> j < Suc k + length rs" by simp
        with ih(2) show ?thesis by blast
      qed
    qed
    ultimately show ?thesis by blast
  next
    case StopIter
    with Suc.prems gn show ?thesis by auto
  next
    case (Raised x)
    with Suc.prems gn show ?thesis by auto
  qed
qed

lemma consume_run:
  assumes "gen_inv seqs d k g" "k \<le> K"
    "\<forall>j. k \<le> j \<and> j < K \<longrightarrow> (\<forall>i<length seqs. \<not> col_ends seqs d j i) \<and> live seqs j"
  shows "\<exists>gK. gen_inv seqs d K gK \<and>
     (\<forall>fuel. consume (K - k + fuel) g =
        (map (expected_row seqs d) [k..<K] @ fst (consume fuel gK), snd (consume fuel gK)))"
  using assms
proof (induction "K - k" arbitrary: k g)
  case 0
  then have "k = K" by simp
  with 0 show ?case by (intro exI[of _ g]) simp
next
  case (Suc x)
  then have k: "k < K" by arith
  with Suc.prems(3) have "\<forall>i<length seqs. \<not> col_ends seqs d k i" "live seqs k" by auto
  from gen_next_yields[OF Suc.prems(1) this] obtain g' where
    g': "gen_next g = (Yield (expected_row seqs d k), g')" "gen_inv seqs d (Suc k) g'"
    by blast
  from Suc.hyps(2) have "x = K - Suc k" by arith
  from Suc.hyps(1)[OF this g'(2)] k Suc.prems(3) obtain gK where
    gK: "gen_inv seqs d K gK"
      "\<forall>fuel. consume (K - Suc k + fuel) g' =
        (map (expected_row seqs d) [Suc k..<K] @ fst (consume fuel gK),
         snd (consume fuel gK))" by auto
  have "\<forall>fuel. consume (K - k + fuel) g =
        (map (expected_row seqs d) [k..<K] @ fst (consume fuel gK), snd (consume fuel gK))"
  proof
    fix fuel
    from k have "K - k + fuel = Suc (K - Suc k + fuel)" by arith
    with g'(1) gK(2) k show "consume (K - k + fuel) g =
        (map (expected_row seqs d) [k..<K] @ fst (consume fuel gK), snd (consume fuel gK))"
      by (simp add: upt_conv_Cons)
  qed
  with gK(1) show ?case by blast
qed

section \<open>Rows of a whole iteration\<close>

text \<open>A generator made with defaults that pass the checks of lines 100-104 starts
  at row 0.\<close>

lemma gen_inv_ziplus:
  assumes "valid_defaults (length iterables) dflts"
  shows "gen_inv (map item_of iterables) (py_iter (the_defaults (length iterables) dflts)) 0
     (ziplus iterables dflts)"
  using assms by (simp add: gen_inv_def ziplus_def)

text \<open>Defaults that fail the checks of lines 100-104 make the first request raise
  \<open>ValueError\<close>, before any iterator is advanced.\<close>

lemma gen_next_invalid:
  assumes "\<not> valid_defaults (length iterables) dflts"
  shows "\<exists>msg. gen_next (ziplus iterables dflts) =
     (Raised (PyException ''ValueError'' msg), Closed (map item_of iterables))"
  using assms by (auto simp: ziplus_def valid_defaults_def the_defaults_def Let_def)

lemma consume_invalid:
  assumes "\<not> valid_defaults (length iterables) dflts"
  shows "fst (consume fuel (ziplus iterables dflts)) = []"
proof (cases fuel)
  case 0
  then show ?thesis by simp
next
  case (Suc m)
  from gen_next_invalid[OF assms] obtain msg where "gen_next (ziplus iterables dflts) =
     (Raised (PyException ''ValueError'' msg), Closed (map item_of iterables))" by blast
  with Suc show ?thesis by simp
qed

text \<open>Every row a consumer gets is the expected one, and no column ended the
  iteration at it.\<close>

lemma consume_rows:
  assumes "consume fuel (ziplus iterables dflts) = (rows, e)" "j < length rows"
  shows "valid_defaults (length iterables) dflts \<and>
     rows ! j = expected_row (map item_of iterables)
       (py_iter (the_defaults (length iterables) dflts)) j \<and>
     (\<forall>i<length iterables. \<not> col_ends (map item_of iterables)
       (py_iter (the_defaults (length iterables) dflts)) j i)"
proof -
  have v: "valid_defaults (length iterables) dflts"
  proof (rule ccontr)
    assume "\<not> ?thesis"
    from consume_invalid[OF this, of fuel] assms show False by simp
  qed
  let ?S = "map item_of iterables"
  let ?D = "py_iter (the_defaults (length iterables) dflts)"
  from consume_sound[OF gen_inv_ziplus[OF v] assms(1)] have
    r: "rows = map (expected_row ?S ?D) [0..<0 + length rows]" and
    n: "\<forall>j. 0 \<le> j \<and> j < 0 + length rows \<longrightarrow>
         (\<forall>i<length ?S. \<not> col_ends ?S ?D j i) \<and> live ?S j" by blast+
  have "rows ! j = expected_row ?S ?D j"
    by (subst r) (simp add: assms(2))
  moreover from n assms(2) have "\<forall>i<length iterables. \<not> col_ends ?S ?D j i" by simp
  ultimately show ?thesis using v by blast
qed

text \<open>
  C10: whatever the defaults, in every row the generator yields, a column whose
  iterator still had an element for that row holds exactly that element: row \<open>j\<close> has
  in column \<open>i\<close> the \<open>j\<close>-th element of the \<open>i\<close>-th argument, for every \<open>j\<close> below
  the number of its elements.
\<close>

theorem C10_live_columns_hold_their_elements:
  assumes "consume fuel (ziplus iterables dflts) = (rows, e)"
    and "j < length rows" and "i < length iterables"
    and "j < length (item_of (iterables ! i))"
  shows "rows ! j ! i = item_of (iterables ! i) ! j"
proof -
  from consume_rows[OF assms(1,2)] have
    "rows ! j = expected_row (map item_of iterables)
       (py_iter (the_defaults (length iterables) dflts)) j" by simp
  with assms(3,4) show ?thesis by (simp add: expected_row_def rowval_def)
qed

text \<open>C10 at \<open>ziplus('ab', range(3), defaults=(0, Previous))\<close>, row 1, column 0.\<close>

theorem C10_witness:
  "consume 4 (ziplus [PyStr ''ab'', py_range 3] (PyTuple [PyInt 0, PyPrevious])) =
     ([[PyStr ''a'', PyInt 0], [PyStr ''b'', PyInt 1], [PyInt 0, PyInt 2]], Some StopIter) \<and>
   (1::nat) < length [[PyStr ''a'', PyInt 0], [PyStr ''b'', PyInt 1], [PyInt 0, PyInt 2]] \<and>
   (0::nat) < length [PyStr ''ab'', py_range 3] \<and>
   1 < length (item_of ([PyStr ''ab'', py_range 3] ! 0)) \<and>
   [[PyStr ''a'', PyInt 0], [PyStr ''b'', PyInt 1], [PyInt 0, PyInt 2]] ! 1 ! 0 =
     item_of ([PyStr ''ab'', py_range 3] ! 0) ! 1"
proof -
  have c: "consume 4 (ziplus [PyStr ''ab'', py_range 3] (PyTuple [PyInt 0, PyPrevious])) =
     ([[PyStr ''a'', PyInt 0], [PyStr ''b'', PyInt 1], [PyInt 0, PyInt 2]], Some StopIter)"
    by code_simp
  have l: "1 < length (item_of ([PyStr ''ab'', py_range 3] ! 0))"
    by (simp add: item_of_def)
  from C10_live_columns_hold_their_elements[OF c, of 1 0] l c show ?thesis by simp
qed

text \<open>
  C5: a column whose default \<open>v\<close> is a plain value (not \<open>StopIteration\<close>, not
  \<open>Previous\<close>, not an exception instance) holds, in every row the generator yields,
  its own \<open>j\<close>-th element while it has one and exactly \<open>v\<close> in every row from its
  exhaustion on.
\<close>

theorem C5_constant_column:
  assumes "valid_defaults (length iterables) dflts"
    and "i < length iterables"
    and "py_iter (the_defaults (length iterables) dflts) ! i = v"
    and "v \<noteq> PyStopIteration" and "v \<noteq> PyPrevious" and "\<not> isinstance_Exception v"
    and "consume fuel (ziplus iterables dflts) = (rows, e)"
    and "j < length rows"
  shows "rows ! j ! i =
     (if j < length (item_of (iterables ! i)) then item_of (iterables ! i) ! j else v)"
proof -
  from consume_rows[OF assms(7,8)] have
    "rows ! j = expected_row (map item_of iterables)
       (py_iter (the_defaults (length iterables) dflts)) j" by simp
  with assms(2,3,5) show ?thesis by (simp add: expected_row_def rowval_def)
qed

text \<open>C5 at \<open>ziplus('ab', range(3), defaults=(0, Previous))\<close>: row 2 holds the
  default 0 in column 0.\<close>

theorem C5_witness:
  "valid_defaults (length [PyStr ''ab'', py_range 3]) (PyTuple [PyInt 0, PyPrevious]) \<and>
   py_iter (the_defaults (length [PyStr ''ab'', py_range 3]) (PyTuple [PyInt 0, PyPrevious])) ! 0
     = PyInt 0 \<and>
   consume 4 (ziplus [PyStr ''ab'', py_range 3] (PyTuple [PyInt 0, PyPrevious])) =
     ([[PyStr ''a'', PyInt 0], [PyStr ''b'', PyInt 1], [PyInt 0, PyInt 2]], Some StopIter) \<and>
   [[PyStr ''a'', PyInt 0], [PyStr ''b'', PyInt 1], [PyInt 0, PyInt 2]] ! 2 ! 0 = PyInt 0"
proof -
  have c: "consume 4 (ziplus [PyStr ''ab'', py_range 3] (PyTuple [PyInt 0, PyPrevious])) =
     ([[PyStr ''a'', PyInt 0], [PyStr ''b'', PyInt 1], [PyInt 0, PyInt 2]], Some StopIter)"
    by code_simp
  have v: "valid_defaults (length [PyStr ''ab'', py_range 3]) (PyTuple [PyInt 0, PyPrevious])"
    by (simp add: valid_defaults_def the_defaults_def)
  have d: "py_iter (the_defaults (length [PyStr ''ab'', py_range 3])
      (PyTuple [PyInt 0, PyPrevious])) ! 0 = PyInt 0"
    by (simp add: the_defaults_def)
  from C5_constant_column[OF v _ d _ _ _ c, of 2] v d c show ?thesis
    by (simp add: item_of_def)
qed

text \<open>
  C9: when the argument of a column with default \<open>Previous\<close> has no element at all
  and the first request yields a row, that row holds \<open>None\<close> in the column.
\<close>

theorem C9_first_row_previous_is_None:
  assumes "valid_defaults (length iterables) dflts"
    and "i < length iterables"
    and "py_iter (the_defaults (length iterables) dflts) ! i = PyPrevious"
    and "item_of (iterables ! i) = []"
    and "gen_next (ziplus iterables dflts) = (Yield row, g)"
  shows "row ! i = PyNone"
proof -
  from gen_next_Yield[OF gen_inv_ziplus[OF assms(1)] assms(5)] have
    "row = expected_row (map item_of iterables)
       (py_iter (the_defaults (length iterables) dflts)) 0" by simp
  with assms(2,3,4) show ?thesis by (simp add: expected_row_def rowval_def)
qed

text \<open>C9 at \<open>ziplus((), 'ab', defaults=(Previous, Previous))\<close>.\<close>

theorem C9_witness:
  "valid_defaults (length [PyTuple [], PyStr ''ab'']) (PyTuple [PyPrevious, PyPrevious]) \<and>
   py_iter (the_defaults (length [PyTuple [], PyStr ''ab'']) (PyTuple [PyPrevious, PyPrevious])) ! 0
     = PyPrevious \<and>
   item_of ([PyTuple [], PyStr ''ab''] ! 0) = [] \<and>
   fst (gen_next (ziplus [PyTuple [], PyStr ''ab''] (PyTuple [PyPrevious, PyPrevious]))) =
     Yield [PyNone, PyStr ''a''] \<and>
   [PyNone, PyStr ''a''] ! 0 = PyNone"
proof -
  obtain g where c: "gen_next (ziplus [PyTuple [], PyStr ''ab''] (PyTuple [PyPrevious, PyPrevious])) =
     (Yield [PyNone, PyStr ''a''], g)"
    by (simp add: ziplus_def item_of_def finish_pass_def Let_def)
  have v: "valid_defaults (length [PyTuple [], PyStr ''ab'']) (PyTuple [PyPrevious, PyPrevious])"
    by (simp add: valid_defaults_def the_defaults_def)
  have d: "py_iter (the_defaults (length [PyTuple [], PyStr ''ab''])
      (PyTuple [PyPrevious, PyPrevious])) ! 0 = PyPrevious"
    by (simp add: the_defaults_def)
  have e: "item_of ([PyTuple [], PyStr ''ab''] ! 0) = []" by (simp add: item_of_def)
  from C9_first_row_previous_is_None[OF v _ d e c] v d e c show ?thesis by simp
qed

section \<open>All columns with the same default\<close>

lemma map_columns: "map (\<lambda>i. h (seqs ! i)) [0..<length seqs] = map h seqs"
  by (rule nth_equalityI) simp_all

lemma min_len_le: "i < length seqs \<Longrightarrow> min_len seqs \<le> length (seqs ! i)"
  by (auto simp: min_len_def)

lemma min_len_attained: "seqs \<noteq> [] \<Longrightarrow> \<exists>i<length seqs. length (seqs ! i) = min_len seqs"
proof -
  assume ne: "seqs \<noteq> []"
  then have "Min (set (map length seqs)) \<in> set (map length seqs)"
    by (intro Min_in) simp_all
  then obtain i where "i < length (map length seqs)"
    "map length seqs ! i = Min (set (map length seqs))"
    unfolding in_set_conv_nth by blast
  with ne show ?thesis by (auto simp: min_len_def)
qed

lemma max_len_ge: "i < length seqs \<Longrightarrow> length (seqs ! i) \<le> max_len seqs"
  by (auto simp: max_len_def)

lemma max_len_attained: "seqs \<noteq> [] \<Longrightarrow> \<exists>i<length seqs. length (seqs ! i) = max_len seqs"
proof -
  assume ne: "seqs \<noteq> []"
  then have "Max (set (map length seqs)) \<in> set (map length seqs)"
    by (intro Max_in) simp_all
  then obtain i where "i < length (map length seqs)"
    "map length seqs ! i = Max (set (map length seqs))"
    unfolding in_set_conv_nth by blast
  with ne show ?thesis by (auto simp: max_len_def)
qed

lemma all_stop_rows:
  assumes "gen_inv seqs (replicate (length seqs) PyStopIteration) 0 g"
  shows "consume (Suc (min_len seqs) + fuel) g = (truncating_zip seqs, Some StopIter)"
proof -
  let ?D = "replicate (length seqs) PyStopIteration"
  let ?K = "min_len seqs"
  have A: "\<forall>j. 0 \<le> j \<and> j < ?K \<longrightarrow>
      (\<forall>i<length seqs. \<not> col_ends seqs ?D j i) \<and> live seqs j"
  proof (intro allI impI)
    fix j assume j: "0 \<le> j \<and> j < ?K"
    then have ne: "seqs \<noteq> []" by (auto simp: min_len_def)
    have "\<forall>i<length seqs. j < length (seqs ! i)"
      using j min_len_le[of _ seqs] by (auto intro: less_le_trans)
    with ne show "(\<forall>i<length seqs. \<not> col_ends seqs ?D j i) \<and> live seqs j"
      by (auto simp: col_ends_def live_def)
  qed
  from consume_run[OF assms _ A] obtain gK where
    gK: "gen_inv seqs ?D ?K gK"
      "\<forall>fuel. consume (?K - 0 + fuel) g =
        (map (expected_row seqs ?D) [0..<?K] @ fst (consume fuel gK), snd (consume fuel gK))"
    by blast
  have "\<exists>its. gen_next gK = (StopIter, Closed its)"
  proof (cases "seqs = []")
    case True
    then have "\<forall>i<length seqs. \<not> col_ends seqs ?D ?K i" "\<not> live seqs ?K"
      by (simp_all add: live_def)
    from gen_next_exhausted[OF gK(1) this] show ?thesis .
  next
    case False
    from min_len_attained[OF False] obtain i where
      "i < length seqs" "length (seqs ! i) = ?K" by blast
    then have "\<exists>i<length seqs. col_ends seqs ?D ?K i" by (auto simp: col_ends_def)
    from first_ending_column[OF this] obtain c where
      c: "c < length seqs" "col_ends seqs ?D ?K c" "\<forall>i<c. \<not> col_ends seqs ?D ?K i" by blast
    from gen_next_ends[OF gK(1) c] c(1) show ?thesis by auto
  qed
  then have e: "consume (Suc fuel) gK = ([], Some StopIter)" by auto
  have r: "map (expected_row seqs ?D) [0..<?K] = truncating_zip seqs"
    unfolding truncating_zip_def
  proof (rule map_cong[OF refl])
    fix j assume "j \<in> set [0..<?K]"
    then have "\<forall>i<length seqs. j < length (seqs ! i)"
      using min_len_le[of _ seqs] by (auto intro: less_le_trans)
    then have "map (rowval seqs ?D j) [0..<length seqs] =
        map (\<lambda>i. (\<lambda>s. s ! j) (seqs ! i)) [0..<length seqs]"
      by (simp add: rowval_def)
    with map_columns[of "\<lambda>s. s ! j" seqs]
    show "expected_row seqs ?D j = map (\<lambda>s. s ! j) seqs"
      by (simp add: expected_row_def)
  qed
  have "consume (Suc ?K + fuel) g = consume (?K - 0 + Suc fuel) g" by simp
  also from gK(2) have "\<dots> = (map (expected_row seqs ?D) [0..<?K] @
      fst (consume (Suc fuel) gK), snd (consume (Suc fuel) gK))" by blast
  also have "\<dots> = (truncating_zip seqs, Some StopIter)" unfolding e r by simp
  finally show ?thesis .
qed

lemma all_previous_rows:
  assumes "gen_inv seqs (replicate (length seqs) PyPrevious) 0 g" "[] \<notin> set seqs"
  shows "consume (Suc (max_len seqs) + fuel) g = (previous_filled seqs, Some StopIter)"
proof -
  let ?D = "replicate (length seqs) PyPrevious"
  let ?K = "max_len seqs"
  have A: "\<forall>j. 0 \<le> j \<and> j < ?K \<longrightarrow>
      (\<forall>i<length seqs. \<not> col_ends seqs ?D j i) \<and> live seqs j"
  proof (intro allI impI)
    fix j assume j: "0 \<le> j \<and> j < ?K"
    then have ne: "seqs \<noteq> []" by (auto simp: max_len_def)
    from max_len_attained[OF ne] j have "live seqs j" by (auto simp: live_def)
    then show "(\<forall>i<length seqs. \<not> col_ends seqs ?D j i) \<and> live seqs j"
      by (auto simp: col_ends_def)
  qed
  from consume_run[OF assms(1) _ A] obtain gK where
    gK: "gen_inv seqs ?D ?K gK"
      "\<forall>fuel. consume (?K - 0 + fuel) g =
        (map (expected_row seqs ?D) [0..<?K] @ fst (consume fuel gK), snd (consume fuel gK))"
    by blast
  have "\<forall>i<length seqs. \<not> col_ends seqs ?D ?K i" by (auto simp: col_ends_def)
  moreover have "\<not> live seqs ?K"
  proof
    assume "live seqs ?K"
    then obtain i where "i < length seqs" "?K < length (seqs ! i)"
      by (auto simp: live_def)
    with max_len_ge[of i seqs] show False by simp
  qed
  ultimately have "\<exists>its. gen_next gK = (StopIter, Closed its)"
    by (rule gen_next_exhausted[OF gK(1)])
  then have e: "consume (Suc fuel) gK = ([], Some StopIter)" by auto
  have r: "map (expected_row seqs ?D) [0..<?K] = previous_filled seqs"
    unfolding previous_filled_def
  proof (rule map_cong[OF refl])
    fix j assume "j \<in> set [0..<?K]"
    from assms(2) have "\<forall>i<length seqs. seqs ! i \<noteq> []" by (metis nth_mem)
    then have "map (rowval seqs ?D j) [0..<length seqs] =
        map (\<lambda>i. (\<lambda>s. if j < length s then s ! j else last s) (seqs ! i)) [0..<length seqs]"
      by (simp add: rowval_def)
    with map_columns[of "\<lambda>s. if j < length s then s ! j else last s" seqs]
    show "expected_row seqs ?D j = map (\<lambda>s. if j < length s then s ! j else last s) seqs"
      by (simp add: expected_row_def)
  qed
  have "consume (Suc ?K + fuel) g = consume (?K - 0 + Suc fuel) g" by simp
  also from gK(2) have "\<dots> = (map (expected_row seqs ?D) [0..<?K] @
      fst (consume (Suc fuel) gK), snd (consume (Suc fuel) gK))" by blast
  also have "\<dots> = (previous_filled seqs, Some StopIter)" unfolding e r by simp
  finally show ?thesis .
qed

text \<open>The second case of \<open>test_ziplus\<close> (lines 181-192).\<close>

lemma example_all_previous:
  "consume 11 (ziplus example_iterables (PyTuple [PyPrevious, PyPrevious, PyPrevious])) =
     (ten_rows, Some StopIter)"
  by code_simp

text \<open>
  C3: with the defaults left out, or all of them \<open>StopIteration\<close>, the generator yields
  the rows of the truncating zip of its arguments and then stops: as many rows as the
  shortest argument has elements, row \<open>j\<close> holding the \<open>j\<close>-th element of every
  argument.
\<close>

theorem C3_all_stop_is_truncating_zip:
  "consume (Suc (min_len (map item_of iterables)) + fuel) (ziplus iterables PyNone) =
     (truncating_zip (map item_of iterables), Some StopIter) \<and>
   consume (Suc (min_len (map item_of iterables)) + fuel)
     (ziplus iterables (PyTuple (replicate (length iterables) PyStopIteration))) =
     (truncating_zip (map item_of iterables), Some StopIter)"
proof -
  let ?n = "length iterables"
  let ?S = "map item_of iterables"
  have "valid_defaults ?n PyNone" "py_iter (the_defaults ?n PyNone) = replicate (length ?S) PyStopIteration"
    by (simp_all add: valid_defaults_def the_defaults_def)
  with gen_inv_ziplus[of iterables PyNone]
  have a: "gen_inv ?S (replicate (length ?S) PyStopIteration) 0 (ziplus iterables PyNone)"
    by simp
  let ?d = "PyTuple (replicate ?n PyStopIteration)"
  have "valid_defaults ?n ?d" "py_iter (the_defaults ?n ?d) = replicate (length ?S) PyStopIteration"
    by (simp_all add: valid_defaults_def the_defaults_def)
  with gen_inv_ziplus[of iterables ?d]
  have b: "gen_inv ?S (replicate (length ?S) PyStopIteration) 0 (ziplus iterables ?d)"
    by simp
  from all_stop_rows[OF a] all_stop_rows[OF b] show ?thesis by blast
qed

text \<open>
  C4: with every default \<open>Previous\<close> and no argument empty, the generator yields as
  many rows as the longest argument has elements and then stops, and a column that has
  run out holds its last element in every later row; for \<open>range(10)\<close>,
  \<open>reversed(range(10))\<close>, \<open>'abcdef'\<close> these are the ten rows ending with \<open>(6,3,f)\<close>,
  \<open>(7,2,f)\<close>, \<open>(8,1,f)\<close>, \<open>(9,0,f)\<close>.
\<close>

theorem C4_all_previous_rows:
  "([] \<notin> set (map item_of iterables) \<longrightarrow>
      consume (Suc (max_len (map item_of iterables)) + fuel)
        (ziplus iterables (PyTuple (replicate (length iterables) PyPrevious))) =
      (previous_filled (map item_of iterables), Some StopIter)) \<and>
   consume (11 + fuel)
     (ziplus example_iterables (PyTuple [PyPrevious, PyPrevious, PyPrevious])) =
     (ten_rows, Some StopIter) \<and>
   drop 6 ten_rows =
     [[PyInt 6, PyInt 3, PyStr ''f''], [PyInt 7, PyInt 2, PyStr ''f''],
      [PyInt 8, PyInt 1, PyStr ''f''], [PyInt 9, PyInt 0, PyStr ''f'']]"
proof -
  let ?n = "length iterables"
  let ?S = "map item_of iterables"
  let ?d = "PyTuple (replicate ?n PyPrevious)"
  have "valid_defaults ?n ?d" "py_iter (the_defaults ?n ?d) = replicate (length ?S) PyPrevious"
    by (simp_all add: valid_defaults_def the_defaults_def)
  with gen_inv_ziplus[of iterables ?d]
  have b: "gen_inv ?S (replicate (length ?S) PyPrevious) 0 (ziplus iterables ?d)"
    by simp
  have "drop 6 ten_rows =
     [[PyInt 6, PyInt 3, PyStr ''f''], [PyInt 7, PyInt 2, PyStr ''f''],
      [PyInt 8, PyInt 1, PyStr ''f''], [PyInt 9, PyInt 0, PyStr ''f'']]"
    by (simp add: ten_rows_def)
  with all_previous_rows[OF b] consume_more[OF example_all_previous] show ?thesis by blast
qed

text \<open>C4 at \<open>ziplus('ab', 7, defaults=(Previous, Previous))\<close>.\<close>

theorem C4_witness:
  "[] \<notin> set (map item_of [PyStr ''ab'', PyInt 7]) \<and>
   consume 3 (ziplus [PyStr ''ab'', PyInt 7] (PyTuple [PyPrevious, PyPrevious])) =
     ([[PyStr ''a'', PyInt 7], [PyStr ''b'', PyInt 7]], Some StopIter)"
proof -
  have ne: "[] \<notin> set (map item_of [PyStr ''ab'', PyInt 7])" by (simp add: item_of_def)
  have m: "max_len (map item_of [PyStr ''ab'', PyInt 7]) = 2"
    by (simp add: max_len_def item_of_def)
  have p: "previous_filled (map item_of [PyStr ''ab'', PyInt 7]) =
      [[PyStr ''a'', PyInt 7], [PyStr ''b'', PyInt 7]]"
    unfolding previous_filled_def m by (simp add: item_of_def upt_conv_Cons)
  have r: "replicate (length [PyStr ''ab'', PyInt 7]) PyPrevious = [PyPrevious, PyPrevious]"
    by (simp add: numeral_2_eq_2)
  from C4_all_previous_rows[of "[PyStr ''ab'', PyInt 7]" 0] ne
  have "consume (Suc (max_len (map item_of [PyStr ''ab'', PyInt 7])) + 0)
        (ziplus [PyStr ''ab'', PyInt 7]
           (PyTuple (replicate (length [PyStr ''ab'', PyInt 7]) PyPrevious))) =
      (previous_filled (map item_of [PyStr ''ab'', PyInt 7]), Some StopIter)" by blast
  then have "consume 3 (ziplus [PyStr ''ab'', PyInt 7] (PyTuple [PyPrevious, PyPrevious])) =
     ([[PyStr ''a'', PyInt 7], [PyStr ''b'', PyInt 7]], Some StopIter)"
    unfolding m p r by (simp add: eval_nat_numeral del: consume.simps)
  with ne show ?thesis by blast
qed

section \<open>Arguments that are not iterable\<close>

lemma item_of_scalar: "\<not> isinstance_Iterable v \<Longrightarrow> item_of v = item_of (PyTuple [v])"
  by (simp add: item_of_def)

text \<open>
  C8: an argument that is not iterable gives the same generator behaviour, at the first
  request and for any number of requests, as the one-element tuple holding it; its column
  has that value as only element.
\<close>

theorem C8_scalar_is_one_element_sequence:
  assumes "\<not> isinstance_Iterable v"
  shows "gen_next (ziplus (xs @ v # ys) dflts) = gen_next (ziplus (xs @ PyTuple [v] # ys) dflts) \<and>
     consume fuel (ziplus (xs @ v # ys) dflts) =
     consume fuel (ziplus (xs @ PyTuple [v] # ys) dflts) \<and>
     item_of v = [v]"
proof -
  have g: "gen_next (ziplus (xs @ v # ys) dflts) = gen_next (ziplus (xs @ PyTuple [v] # ys) dflts)"
    using item_of_scalar[OF assms] by (simp add: ziplus_def)
  have "consume fuel (ziplus (xs @ v # ys) dflts) =
     consume fuel (ziplus (xs @ PyTuple [v] # ys) dflts)"
    using g by (cases fuel) simp_all
  moreover from assms have "item_of v = [v]" by (simp add: item_of_def)
  ultimately show ?thesis using g by blast
qed

text \<open>C8 at \<open>ziplus('ab', 7, ...)\<close> against \<open>ziplus('ab', (7,), ...)\<close>.\<close>

theorem C8_witness:
  "\<not> isinstance_Iterable (PyInt 7) \<and>
   consume 3 (ziplus ([PyStr ''ab''] @ PyInt 7 # []) (PyTuple [PyPrevious, PyPrevious])) =
     ([[PyStr ''a'', PyInt 7], [PyStr ''b'', PyInt 7]], Some StopIter) \<and>
   consume 3 (ziplus ([PyStr ''ab''] @ PyTuple [PyInt 7] # []) (PyTuple [PyPrevious, PyPrevious])) =
     ([[PyStr ''a'', PyInt 7], [PyStr ''b'', PyInt 7]], Some StopIter)"
proof -
  have s: "\<not> isinstance_Iterable (PyInt 7)" by simp
  have c: "consume 3 (ziplus ([PyStr ''ab''] @ PyTuple [PyInt 7] # []) (PyTuple [PyPrevious, PyPrevious])) =
     ([[PyStr ''a'', PyInt 7], [PyStr ''b'', PyInt 7]], Some StopIter)"
    by code_simp
  from C8_scalar_is_one_element_sequence[OF s, of "[PyStr ''ab'']" "[]" "PyTuple [PyPrevious, PyPrevious]" 3]
  have "consume 3 (ziplus ([PyStr ''ab''] @ PyInt 7 # []) (PyTuple [PyPrevious, PyPrevious])) =
     consume 3 (ziplus ([PyStr ''ab''] @ PyTuple [PyInt 7] # []) (PyTuple [PyPrevious, PyPrevious]))"
    by blast
  with c s show ?thesis by simp
qed

section \<open>Errors\<close>

text \<open>An exception raised by a pass over the columns is one of the defaults.\<close>

lemma for_columns_Raising:
  "for_columns prev cols f = Raising e f' \<Longrightarrow>
     \<exists>i\<in>set cols. e = defaults f ! i \<and> isinstance_Exception (defaults f ! i)"
proof (induction cols arbitrary: f)
  case Nil
  then show ?case by simp
next
  case (Cons i cols)
  show ?case
  proof (cases "\<not> stopped f ! i \<and> items f ! i \<noteq> []")
    case True
    with Cons.prems have "for_columns prev cols
         (f\<lparr>values' := values' f @ [hd (items f ! i)],
            items := (items f)[i := tl (items f ! i)]\<rparr>) = Raising e f'" by simp
    from Cons.IH[OF this] show ?thesis by simp
  next
    case False
    show ?thesis
    proof (cases "isinstance_Exception (defaults f ! i)")
      case True
      with False Cons.prems show ?thesis by (auto simp: Let_def split: if_splits)
    next
      case exc: False
      let ?v = "if defaults f ! i = PyPrevious
                then (case prev of None \<Rightarrow> PyNone | Some p \<Rightarrow> p ! i)
                else defaults f ! i"
      let ?f1 = "(mark_stopped i f)\<lparr>values' := values' (mark_stopped i f) @ [?v]\<rparr>"
      from False exc Cons.prems have "for_columns prev cols ?f1 = Raising e f'"
        by (auto simp: Let_def mark_stopped_def split: if_splits)
      moreover have "defaults ?f1 = defaults f" by (simp add: mark_stopped_def)
      ultimately show ?thesis using Cons.IH[of ?f1] by auto
    qed
  qed
qed

text \<open>
  C2, as the code has it: calling \<open>ziplus\<close> never fails, it returns a generator that
  has run nothing. When the defaults are not a \<open>Sequence\<close> or their number differs from
  the number of arguments, the first request raises \<open>ValueError\<close> with no iterator
  advanced and no row yielded. A request made after a row has been yielded raises nothing
  but one of the defaults, an exception instance given for a column.
\<close>

theorem C2_configuration_error_at_first_request:
  "ziplus iterables dflts = Created iterables dflts \<and>
   (\<not> valid_defaults (length iterables) dflts \<longrightarrow>
      (\<exists>msg. gen_next (ziplus iterables dflts) =
         (Raised (PyException ''ValueError'' msg), Closed (map item_of iterables)))) \<and>
   (gen_next (Suspended f) = (Raised e, g) \<longrightarrow>
      (\<exists>i<n_items f. isinstance_Exception (defaults f ! i) \<and>
         e = raise_in_generator (defaults f ! i)))"
proof -
  have "gen_next (Suspended f) = (Raised e, g) \<longrightarrow>
      (\<exists>i<n_items f. isinstance_Exception (defaults f ! i) \<and>
         e = raise_in_generator (defaults f ! i))"
  proof
    assume a: "gen_next (Suspended f) = (Raised e, g)"
    let ?r = "for_columns (Some (values' f)) [0..<n_items f] (f\<lparr>values' := []\<rparr>)"
    from a obtain e' f' where r: "?r = Raising e' f'" and e: "e = raise_in_generator e'"
      by (cases ?r) (auto simp: finish_pass_def split: if_splits)
    from for_columns_Raising[OF r] e show "\<exists>i<n_items f.
        isinstance_Exception (defaults f ! i) \<and> e = raise_in_generator (defaults f ! i)"
      by auto
  qed
  with gen_next_invalid[of iterables dflts] show ?thesis by (simp add: ziplus_def)
qed

text \<open>C2 at two defaults for three arguments, at \<open>defaults=3\<close>, and at a suspended
  generator whose only column has run out with an \<open>IndexError\<close> as default.\<close>

theorem C2_witness:
  "\<not> valid_defaults (length example_iterables) (PyTuple [PyPrevious, PyPrevious]) \<and>
   fst (gen_next (ziplus example_iterables (PyTuple [PyPrevious, PyPrevious]))) =
     Raised (PyException ''ValueError'' ''Bad defaults length'') \<and>
   \<not> valid_defaults (length example_iterables) (PyInt 3) \<and>
   fst (gen_next (ziplus example_iterables (PyInt 3))) =
     Raised (PyException ''ValueError'' ''defaults expects a Sequence but found int'') \<and>
   gen_next (Suspended
     \<lparr>defaults = [PyException ''IndexError'' ''Oh no!''], n_items = 1, items = [[]],
      n_stopped = 0, stopped = [False], values' = [PyStr ''a'']\<rparr>) =
     (Raised (PyException ''IndexError'' ''Oh no!''), Closed [[]]) \<and>
   (\<exists>i<1. isinstance_Exception ([PyException ''IndexError'' ''Oh no!''] ! i) \<and>
      PyException ''IndexError'' ''Oh no!'' =
      raise_in_generator ([PyException ''IndexError'' ''Oh no!''] ! i))"
proof -
  let ?f = "\<lparr>defaults = [PyException ''IndexError'' ''Oh no!''], n_items = 1, items = [[]],
      n_stopped = 0, stopped = [False], values' = [PyStr ''a'']\<rparr>"
  have v: "\<not> valid_defaults (length example_iterables) (PyTuple [PyPrevious, PyPrevious])"
    "\<not> valid_defaults (length example_iterables) (PyInt 3)"
    by (simp_all add: valid_defaults_def the_defaults_def example_iterables_def)
  have a: "fst (gen_next (ziplus example_iterables (PyTuple [PyPrevious, PyPrevious]))) =
     Raised (PyException ''ValueError'' ''Bad defaults length'')"
    by (simp add: ziplus_def example_iterables_def)
  have b: "fst (gen_next (ziplus example_iterables (PyInt 3))) =
     Raised (PyException ''ValueError'' ''defaults expects a Sequence but found int'')"
    by (simp add: ziplus_def example_iterables_def)
  have s: "gen_next (Suspended ?f) =
     (Raised (PyException ''IndexError'' ''Oh no!''), Closed [[]])"
    by (simp add: finish_pass_def raise_in_generator_def)
  from C2_configuration_error_at_first_request[of _ _ ?f
      "PyException ''IndexError'' ''Oh no!''" "Closed [[]]"] s
  have "\<exists>i<n_items ?f. isinstance_Exception (defaults ?f ! i) \<and>
      PyException ''IndexError'' ''Oh no!'' = raise_in_generator (defaults ?f ! i)"
    by blast
  then have "\<exists>i<1. isinstance_Exception ([PyException ''IndexError'' ''Oh no!''] ! i) \<and>
      PyException ''IndexError'' ''Oh no!'' =
      raise_in_generator ([PyException ''IndexError'' ''Oh no!''] ! i)" by simp
  with v a b s show ?thesis by blast
qed

text \<open>C2 as the specification states it (the error is raised at construction, before
  any row is requested) fails: with two defaults for three arguments the call returns a
  generator, and it is the first request that raises.\<close>

theorem C2_construction_counterexample:
  "ziplus example_iterables (PyTuple [PyPrevious, PyPrevious]) =
     Created example_iterables (PyTuple [PyPrevious, PyPrevious]) \<and>
   length example_iterables = 3 \<and>
   gen_next (Created example_iterables (PyTuple [PyPrevious, PyPrevious])) =
     (Raised (PyException ''ValueError'' ''Bad defaults length''),
      Closed (map item_of example_iterables))"
  by (simp add: ziplus_def example_iterables_def)

section \<open>Columns that end the iteration\<close>

text \<open>A consumer that got all the rows it asked for may go on from where the generator
  stands.\<close>

lemma consume_None:
  "consume m g = (rows, None) \<Longrightarrow>
     length rows = m \<and>
     (\<forall>fuel. consume (m + fuel) g =
        (rows @ fst (consume fuel (after m g)), snd (consume fuel (after m g))))"
proof (induction m arbitrary: g rows)
  case 0
  then show ?case by simp
next
  case (Suc m)
  obtain r g' where gn: "gen_next g = (r, g')" by (cases "gen_next g")
  obtain rs e' where c: "consume m g' = (rs, e')" by (cases "consume m g'")
  from Suc.prems gn c obtain row where r: "r = Yield row" "rows = row # rs" "e' = None"
    by (cases r) auto
  from Suc.IH[of g' rs] c r(3) have ih: "length rs = m"
    "\<forall>fuel. consume (m + fuel) g' =
        (rs @ fst (consume fuel (after m g')), snd (consume fuel (after m g')))" by auto
  from ih gn r show ?case by simp
qed

lemma after_inv:
  "gen_inv seqs d k g \<Longrightarrow> consume m g = (rows, None) \<Longrightarrow> gen_inv seqs d (k + m) (after m g)"
proof (induction m arbitrary: g rows k)
  case 0
  then show ?case by simp
next
  case (Suc m)
  obtain r g' where gn: "gen_next g = (r, g')" by (cases "gen_next g")
  obtain rs e' where c: "consume m g' = (rs, e')" by (cases "consume m g'")
  from Suc.prems(2) gn c obtain row where r: "r = Yield row" "rows = row # rs" "e' = None"
    by (cases r) auto
  from gen_next_Yield[OF Suc.prems(1)] gn r(1) have "gen_inv seqs d (Suc k) g'" by simp
  from Suc.IH[OF this] c r(3) have "gen_inv seqs d (Suc k + m) (after m g')" by simp
  with gn show ?case by simp
qed

lemma cursors_inv:
  "gen_inv seqs d k g \<Longrightarrow> j < length seqs \<Longrightarrow> cursors g ! j = drop k (seqs ! j)"
  by (cases g) (auto simp: gen_inv_def mid_inv_def)

text \<open>A column whose default is \<open>StopIteration\<close> or an exception instance is never
  filled: every row yielded holds one of its own elements.\<close>

lemma ending_column_bounds_rows:
  assumes "consume fuel (ziplus iterables dflts) = (rows, r)" "i < length iterables"
    "py_iter (the_defaults (length iterables) dflts) ! i = PyStopIteration \<or>
     isinstance_Exception (py_iter (the_defaults (length iterables) dflts) ! i)"
  shows "length rows \<le> length (item_of (iterables ! i)) \<and>
     (\<forall>j<length rows. rows ! j ! i = item_of (iterables ! i) ! j)"
proof -
  let ?S = "map item_of iterables"
  let ?D = "py_iter (the_defaults (length iterables) dflts)"
  have no_fill: "j < length (item_of (iterables ! i))" if "j < length rows" for j
  proof (rule ccontr)
    assume "\<not> ?thesis"
    then have "length (item_of (iterables ! i)) < length rows" using that by simp
    from consume_rows[OF assms(1) this] assms(2)
    have "\<not> col_ends ?S ?D (length (item_of (iterables ! i))) i" by simp
    with assms(2,3) show False by (auto simp: col_ends_def)
  qed
  have "length rows \<le> length (item_of (iterables ! i))"
  proof (rule ccontr)
    assume "\<not> ?thesis"
    then have "length (item_of (iterables ! i)) < length rows" by simp
    from no_fill[OF this] show False by simp
  qed
  moreover have "\<forall>j<length rows. rows ! j ! i = item_of (iterables ! i) ! j"
  proof (intro allI impI)
    fix j assume j: "j < length rows"
    from consume_rows[OF assms(1) j] have "rows ! j = expected_row ?S ?D j" by simp
    with no_fill[OF j] assms(2) show "rows ! j ! i = item_of (iterables ! i) ! j"
      by (simp add: expected_row_def rowval_def)
  qed
  ultimately show ?thesis by blast
qed

text \<open>The request at which such a column is found exhausted, no column before it
  ending the iteration: the columns after it are not advanced.\<close>

lemma ending_column_ends:
  assumes "valid_defaults (length iterables) dflts" "c < length iterables"
    "consume (length (item_of (iterables ! c))) (ziplus iterables dflts) = (rows, None)"
    "col_ends (map item_of iterables) (py_iter (the_defaults (length iterables) dflts))
       (length (item_of (iterables ! c))) c"
    "\<forall>i<c. \<not> col_ends (map item_of iterables)
       (py_iter (the_defaults (length iterables) dflts)) (length (item_of (iterables ! c))) i"
  shows "\<exists>its. gen_next (after (length (item_of (iterables ! c))) (ziplus iterables dflts)) =
       (if py_iter (the_defaults (length iterables) dflts) ! c = PyStopIteration then StopIter
        else Raised (raise_in_generator (py_iter (the_defaults (length iterables) dflts) ! c)),
        Closed its) \<and>
     (\<forall>j. c < j \<and> j < length iterables \<longrightarrow>
        its ! j = cursors (after (length (item_of (iterables ! c))) (ziplus iterables dflts)) ! j)"
proof -
  let ?S = "map item_of iterables"
  let ?D = "py_iter (the_defaults (length iterables) dflts)"
  let ?L = "length (item_of (iterables ! c))"
  let ?g = "after ?L (ziplus iterables dflts)"
  from after_inv[OF gen_inv_ziplus[OF assms(1)] assms(3)] have inv: "gen_inv ?S ?D ?L ?g"
    by simp
  from gen_next_ends[OF inv _ assms(4,5)] assms(2) obtain its where
    its: "gen_next ?g = (if ?D ! c = PyStopIteration then StopIter
        else Raised (raise_in_generator (?D ! c)), Closed its)"
      "\<forall>j<length ?S. its ! j = drop (if j < c then Suc ?L else ?L) (?S ! j)" by auto
  have "\<forall>j. c < j \<and> j < length iterables \<longrightarrow> its ! j = cursors ?g ! j"
  proof (intro allI impI)
    fix j assume j: "c < j \<and> j < length iterables"
    with its(2) have "its ! j = drop ?L (?S ! j)" by simp
    with cursors_inv[OF inv, of j] j show "its ! j = cursors ?g ! j" by simp
  qed
  with its(1) show ?thesis by blast
qed

lemma consume_ended:
  assumes "consume m g = (rows, None)" "gen_next (after m g) = (r, g')" "\<forall>row. r \<noteq> Yield row"
  shows "consume (Suc m + fuel) g = (rows, Some r)"
proof -
  from assms(2,3) have "consume (Suc fuel) (after m g) = ([], Some r)"
    by (cases r) auto
  moreover from consume_None[OF assms(1)] have "consume (m + Suc fuel) g =
      (rows @ fst (consume (Suc fuel) (after m g)), snd (consume (Suc fuel) (after m g)))"
    by blast
  moreover have "consume (Suc m + fuel) g = consume (m + Suc fuel) g" by simp
  ultimately show ?thesis by (simp del: consume.simps)
qed

text \<open>
  C6, as the code has it: for a column whose default is an exception instance \<open>e\<close>,
  every row yielded holds the column's own element, and no row is yielded once the column
  has run out; the request that finds the column exhausted, reached with no earlier
  column ending the iteration, fails with \<open>e\<close> itself when \<open>e\<close> is not a
  \<open>StopIteration\<close>, and with the \<open>RuntimeError\<close> of \<open>generator_stop\<close> when it is.
  The test that raises is made whenever the column is visited while stopped or empty.
\<close>

theorem C6_raise_column:
  assumes "valid_defaults (length iterables) dflts" and "i < length iterables"
    and "py_iter (the_defaults (length iterables) dflts) ! i = PyException cls msg"
  shows "(consume fuel (ziplus iterables dflts) = (rows, r) \<longrightarrow>
       length rows \<le> length (item_of (iterables ! i)) \<and>
       (\<forall>j<length rows. rows ! j ! i = item_of (iterables ! i) ! j)) \<and>
    (consume (length (item_of (iterables ! i))) (ziplus iterables dflts) = (rows', None) \<and>
     (\<forall>c<i. \<not> col_ends (map item_of iterables)
        (py_iter (the_defaults (length iterables) dflts)) (length (item_of (iterables ! i))) c)
     \<longrightarrow>
       consume (Suc (length (item_of (iterables ! i))) + fuel') (ziplus iterables dflts) =
       (rows', Some (Raised (raise_in_generator (PyException cls msg))))) \<and>
    (cls \<noteq> ''StopIteration'' \<longrightarrow>
       raise_in_generator (PyException cls msg) = PyException cls msg) \<and>
    ((stopped f ! i \<or> items f ! i = []) \<and> defaults f ! i = PyException cls msg \<longrightarrow>
       for_columns prev (i # cols) f = Raising (PyException cls msg) (mark_stopped i f))"
proof (intro conjI impI)
  assume "consume fuel (ziplus iterables dflts) = (rows, r)"
  from ending_column_bounds_rows[OF this assms(2)] assms(3)
  show "length rows \<le> length (item_of (iterables ! i))"
    and "\<forall>j<length rows. rows ! j ! i = item_of (iterables ! i) ! j" by simp_all
next
  let ?S = "map item_of iterables"
  let ?D = "py_iter (the_defaults (length iterables) dflts)"
  let ?L = "length (item_of (iterables ! i))"
  assume a: "consume ?L (ziplus iterables dflts) = (rows', None) \<and>
     (\<forall>c<i. \<not> col_ends ?S ?D ?L c)"
  from assms(2,3) have "col_ends ?S ?D ?L i" by (simp add: col_ends_def)
  from ending_column_ends[OF assms(1,2) _ this] a assms(3) obtain its where
    "gen_next (after ?L (ziplus iterables dflts)) =
       (Raised (raise_in_generator (PyException cls msg)), Closed its)" by auto
  from consume_ended[OF _ this] a
  show "consume (Suc ?L + fuel') (ziplus iterables dflts) =
       (rows', Some (Raised (raise_in_generator (PyException cls msg))))" by simp
next
  assume "cls \<noteq> ''StopIteration''"
  then show "raise_in_generator (PyException cls msg) = PyException cls msg"
    by (simp add: raise_in_generator_def)
next
  assume "(stopped f ! i \<or> items f ! i = []) \<and> defaults f ! i = PyException cls msg"
  then show "for_columns prev (i # cols) f = Raising (PyException cls msg) (mark_stopped i f)"
    by (auto simp: Let_def mark_stopped_def)
qed

text \<open>C6 at the last case of \<open>test_ziplus\<close> (lines 213-221): six rows, then
  \<open>IndexError('Oh no!')\<close>.\<close>

theorem C6_witness:
  "valid_defaults (length example_iterables)
     (PyTuple [PyPrevious, PyStopIteration, PyException ''IndexError'' ''Oh no!'']) \<and>
   py_iter (the_defaults (length example_iterables)
     (PyTuple [PyPrevious, PyStopIteration, PyException ''IndexError'' ''Oh no!''])) ! 2 =
     PyException ''IndexError'' ''Oh no!'' \<and>
   length (item_of (example_iterables ! 2)) = 6 \<and>
   consume 6 (ziplus example_iterables
     (PyTuple [PyPrevious, PyStopIteration, PyException ''IndexError'' ''Oh no!''])) =
     (take 6 ten_rows, None) \<and>
   \<not> col_ends (map item_of example_iterables)
       [PyPrevious, PyStopIteration, PyException ''IndexError'' ''Oh no!''] 6 0 \<and>
   \<not> col_ends (map item_of example_iterables)
       [PyPrevious, PyStopIteration, PyException ''IndexError'' ''Oh no!''] 6 1 \<and>
   consume 7 (ziplus example_iterables
     (PyTuple [PyPrevious, PyStopIteration, PyException ''IndexError'' ''Oh no!''])) =
     (take 6 ten_rows, Some (Raised (PyException ''IndexError'' ''Oh no!''))) \<and>
   for_columns None [0]
     \<lparr>defaults = [PyException ''IndexError'' ''Oh no!''], n_items = 1, items = [[]],
      n_stopped = 0, stopped = [False], values' = []\<rparr> =
     Raising (PyException ''IndexError'' ''Oh no!'')
       \<lparr>defaults = [PyException ''IndexError'' ''Oh no!''], n_items = 1, items = [[]],
        n_stopped = 1, stopped = [True], values' = []\<rparr>"
proof -
  let ?d = "PyTuple [PyPrevious, PyStopIteration, PyException ''IndexError'' ''Oh no!'']"
  let ?D = "[PyPrevious, PyStopIteration, PyException ''IndexError'' ''Oh no!'']"
  let ?f = "\<lparr>defaults = [PyException ''IndexError'' ''Oh no!''], n_items = 1, items = [[]],
      n_stopped = 0, stopped = [False], values' = []\<rparr>"
  have v: "valid_defaults (length example_iterables) ?d"
    by (simp add: valid_defaults_def the_defaults_def example_iterables_def)
  have D: "py_iter (the_defaults (length example_iterables) ?d) = ?D"
    by (simp add: the_defaults_def)
  have d: "py_iter (the_defaults (length example_iterables) ?d) ! 2 =
      PyException ''IndexError'' ''Oh no!''"
    unfolding D by simp
  have i: "2 < length example_iterables" by (simp add: example_iterables_def)
  have L: "length (item_of (example_iterables ! 2)) = 6"
    by (simp add: example_iterables_def item_of_def)
  have c6: "consume 6 (ziplus example_iterables ?d) = (take 6 ten_rows, None)"
    by code_simp
  have n0: "\<not> col_ends (map item_of example_iterables) ?D 6 0"
    by (simp add: col_ends_def example_iterables_def item_of_def py_range_def)
  have n1: "\<not> col_ends (map item_of example_iterables) ?D 6 1"
    by (simp add: col_ends_def example_iterables_def item_of_def py_range_def py_reversed_def)
  have n: "\<forall>c<2. \<not> col_ends (map item_of example_iterables) ?D 6 c"
    using n0 n1 by (auto simp: less_Suc_eq numeral_2_eq_2)
  have fr: "(stopped ?f ! 0 \<or> items ?f ! 0 = []) \<and>
      defaults ?f ! 0 = PyException ''IndexError'' ''Oh no!''" by simp
  note t = C6_raise_column[OF v i d, unfolded L D, of _ _ _ "take 6 ten_rows" 0]
  from t c6 n have "consume (Suc 6 + 0) (ziplus example_iterables ?d) =
      (take 6 ten_rows, Some (Raised (raise_in_generator (PyException ''IndexError'' ''Oh no!''))))"
    by blast
  then have c7: "consume 7 (ziplus example_iterables ?d) =
      (take 6 ten_rows, Some (Raised (PyException ''IndexError'' ''Oh no!'')))"
    by (simp add: raise_in_generator_def eval_nat_numeral del: consume.simps)
  have "for_columns None [0] ?f = Raising (PyException ''IndexError'' ''Oh no!'')
       \<lparr>defaults = [PyException ''IndexError'' ''Oh no!''], n_items = 1, items = [[]],
        n_stopped = 1, stopped = [True], values' = []\<rparr>"
    by simp
  with v d L c6 n0 n1 c7 show ?thesis unfolding D by blast
qed

text \<open>C6 as the specification states it (the request fails with exactly \<open>e\<close>, for
  every exception instance \<open>e\<close>) fails for an instance of \<open>StopIteration\<close>: the
  caller gets a \<open>RuntimeError\<close>.\<close>

theorem C6_stop_iteration_instance_counterexample:
  "consume 2 (ziplus [PyStr ''a''] (PyTuple [PyException ''StopIteration'' ''done''])) =
     ([[PyStr ''a'']],
      Some (Raised (PyException ''RuntimeError'' ''generator raised StopIteration''))) \<and>
   isinstance_Exception (PyException ''StopIteration'' ''done'') \<and>
   PyException ''RuntimeError'' ''generator raised StopIteration'' \<noteq>
     PyException ''StopIteration'' ''done''"
  by code_simp

text \<open>
  C7: for a column whose default is \<open>StopIteration\<close>, every row yielded holds the
  column's own element (it is never filled); the request that finds the column exhausted,
  reached with no earlier column ending the iteration, yields no row and ends the
  iteration, leaves the iterators of all later columns where they stood, and no later
  request yields a row.
\<close>

theorem C7_stop_column:
  assumes "valid_defaults (length iterables) dflts" and "c < length iterables"
    and "py_iter (the_defaults (length iterables) dflts) ! c = PyStopIteration"
  shows "(consume fuel (ziplus iterables dflts) = (rows, r) \<longrightarrow>
       length rows \<le> length (item_of (iterables ! c)) \<and>
       (\<forall>j<length rows. rows ! j ! c = item_of (iterables ! c) ! j)) \<and>
    (consume (length (item_of (iterables ! c))) (ziplus iterables dflts) = (rows', None) \<and>
     (\<forall>i<c. \<not> col_ends (map item_of iterables)
        (py_iter (the_defaults (length iterables) dflts)) (length (item_of (iterables ! c))) i)
     \<longrightarrow>
       (\<exists>its. gen_next (after (length (item_of (iterables ! c))) (ziplus iterables dflts)) =
            (StopIter, Closed its) \<and>
          (\<forall>j. c < j \<and> j < length iterables \<longrightarrow>
             its ! j =
             cursors (after (length (item_of (iterables ! c))) (ziplus iterables dflts)) ! j)) \<and>
       consume (Suc (length (item_of (iterables ! c))) + fuel') (ziplus iterables dflts) =
       (rows', Some StopIter))"
proof (intro conjI impI)
  assume "consume fuel (ziplus iterables dflts) = (rows, r)"
  from ending_column_bounds_rows[OF this assms(2)] assms(3)
  show "length rows \<le> length (item_of (iterables ! c))"
    and "\<forall>j<length rows. rows ! j ! c = item_of (iterables ! c) ! j" by simp_all
next
  let ?S = "map item_of iterables"
  let ?D = "py_iter (the_defaults (length iterables) dflts)"
  let ?L = "length (item_of (iterables ! c))"
  let ?g = "after ?L (ziplus iterables dflts)"
  assume a: "consume ?L (ziplus iterables dflts) = (rows', None) \<and>
     (\<forall>i<c. \<not> col_ends ?S ?D ?L i)"
  from assms(2,3) have "col_ends ?S ?D ?L c" by (simp add: col_ends_def)
  from ending_column_ends[OF assms(1,2) _ this] a assms(3) obtain its where
    its: "gen_next ?g = (StopIter, Closed its)"
      "\<forall>j. c < j \<and> j < length iterables \<longrightarrow> its ! j = cursors ?g ! j" by auto
  then show "\<exists>its. gen_next ?g = (StopIter, Closed its) \<and>
      (\<forall>j. c < j \<and> j < length iterables \<longrightarrow> its ! j = cursors ?g ! j)" by blast
  from consume_ended[OF _ its(1)] a
  show "consume (Suc ?L + fuel') (ziplus iterables dflts) = (rows', Some StopIter)" by simp
qed

text \<open>C7 at \<open>ziplus('ab', 'c', 'de', defaults=(Previous, StopIteration, Previous))\<close>:
  the second request stops at column 1 and leaves \<open>'e'\<close> in column 2.\<close>

theorem C7_witness:
  "valid_defaults (length stop_example) (PyTuple [PyPrevious, PyStopIteration, PyPrevious]) \<and>
   py_iter (the_defaults (length stop_example)
     (PyTuple [PyPrevious, PyStopIteration, PyPrevious])) ! 1 = PyStopIteration \<and>
   length (item_of (stop_example ! 1)) = 1 \<and>
   consume 1 (ziplus stop_example (PyTuple [PyPrevious, PyStopIteration, PyPrevious])) =
     ([[PyStr ''a'', PyStr ''c'', PyStr ''d'']], None) \<and>
   \<not> col_ends (map item_of stop_example) [PyPrevious, PyStopIteration, PyPrevious] 1 0 \<and>
   cursors (after 1 (ziplus stop_example (PyTuple [PyPrevious, PyStopIteration, PyPrevious]))) =
     [[PyStr ''b''], [], [PyStr ''e'']] \<and>
   gen_next (after 1 (ziplus stop_example (PyTuple [PyPrevious, PyStopIteration, PyPrevious]))) =
     (StopIter, Closed [[], [], [PyStr ''e'']]) \<and>
   consume 5 (ziplus stop_example (PyTuple [PyPrevious, PyStopIteration, PyPrevious])) =
     ([[PyStr ''a'', PyStr ''c'', PyStr ''d'']], Some StopIter)"
proof -
  let ?d = "PyTuple [PyPrevious, PyStopIteration, PyPrevious]"
  let ?D = "[PyPrevious, PyStopIteration, PyPrevious]"
  have v: "valid_defaults (length stop_example) ?d"
    by (simp add: valid_defaults_def the_defaults_def stop_example_def)
  have D: "py_iter (the_defaults (length stop_example) ?d) = ?D"
    by (simp add: the_defaults_def)
  have d: "py_iter (the_defaults (length stop_example) ?d) ! 1 = PyStopIteration"
    unfolding D by simp
  have i: "1 < length stop_example" by (simp add: stop_example_def)
  have L: "length (item_of (stop_example ! 1)) = 1"
    by (simp add: stop_example_def item_of_def)
  have c1: "consume 1 (ziplus stop_example ?d) =
      ([[PyStr ''a'', PyStr ''c'', PyStr ''d'']], None)"
    by code_simp
  have n0: "\<not> col_ends (map item_of stop_example) ?D 1 0"
    by (simp add: col_ends_def stop_example_def item_of_def)
  then have n: "\<forall>i<1. \<not> col_ends (map item_of stop_example) ?D 1 i" by simp
  have cu: "cursors (after 1 (ziplus stop_example ?d)) = [[PyStr ''b''], [], [PyStr ''e'']]"
    by code_simp
  have gn: "gen_next (after 1 (ziplus stop_example ?d)) =
      (StopIter, Closed [[], [], [PyStr ''e'']])"
    by code_simp
  note t = C7_stop_column[OF v i d, unfolded L D,
      of _ _ _ "[[PyStr ''a'', PyStr ''c'', PyStr ''d'']]" 3]
  from t c1 n have "consume (Suc 1 + 3) (ziplus stop_example ?d) =
      ([[PyStr ''a'', PyStr ''c'', PyStr ''d'']], Some StopIter)"
    by blast
  then have c5: "consume 5 (ziplus stop_example ?d) =
      ([[PyStr ''a'', PyStr ''c'', PyStr ''d'']], Some StopIter)"
    by (simp add: eval_nat_numeral del: consume.simps)
  with v d L c1 n0 cu gn show ?thesis unfolding D by blast
qed

section \<open>The docstring's first example\<close>

lemma example_previous_stop_previous:
  "consume 11 (ziplus example_iterables (PyTuple [PyPrevious, PyStopIteration, PyPrevious])) =
     (ten_rows, Some StopIter)"
  by code_simp

text \<open>
  C1, as the code has it: for \<open>range(10)\<close>, \<open>reversed(range(10))\<close>, \<open>'abcdef'\<close> with
  defaults \<open>(Previous, StopIteration, Previous)\<close> the generator yields the ten rows of
  the docstring, \<open>(0,9,a)\<close> to \<open>(5,4,f)\<close> and then \<open>(6,3,f)\<close>, \<open>(7,2,f)\<close>,
  \<open>(8,1,f)\<close>, \<open>(9,0,f)\<close>, and the eleventh request ends the iteration: the column
  with \<open>StopIteration\<close> is the second one, which has ten elements.
\<close>

theorem C1_example_yields_ten_rows:
  "consume (11 + fuel)
     (ziplus example_iterables (PyTuple [PyPrevious, PyStopIteration, PyPrevious])) =
   (ten_rows, Some StopIter)"
  by (rule consume_more [OF example_previous_stop_previous])

text \<open>C1 as the specification states it (exactly the six rows \<open>(0,9,a)\<close> to
  \<open>(5,4,f)\<close>) fails: the seventh request yields the row \<open>(6,3,f)\<close>.\<close>

theorem C1_six_rows_counterexample:
  "consume 7 (ziplus example_iterables (PyTuple [PyPrevious, PyStopIteration, PyPrevious]))
     \<noteq> (take 6 ten_rows, Some StopIter) \<and>
   fst (consume 7
     (ziplus example_iterables (PyTuple [PyPrevious, PyStopIteration, PyPrevious]))) ! 6 =
     [PyInt 6, PyInt 3, PyStr ''f'']"
  by code_simp

end
